theory Spec2Isabelle
  imports Main
begin

section \<open>Billboard top-ten scraper: data model\<close>

text \<open>
  The embedding follows \<^verbatim>\<open>utils/get_data.py\<close>. A cell of the frame read from a page
  is a string, a floating NaN (an empty HTML cell) or Python's \<^verbatim>\<open>None\<close> (the value the
  code stores in an added \<^verbatim>\<open>Ref\<close> column). In the two columns the code reads only
  through \<^verbatim>\<open>astype(str)\<close> (Peak, Weeks in Top Ten), which pandas may hold as numbers,
  \<open>Text s\<close> is the cell whose \<^verbatim>\<open>str\<close> is \<open>s\<close>. In the three columns read through the
  \<^verbatim>\<open>.str\<close> accessor (the two dates and the name) \<open>Text s\<close> is a string of the frame.
  Strings are lists of characters; the character classes below are the ASCII part of
  what Python's \<^verbatim>\<open>\d\<close> and \<^verbatim>\<open>str.strip\<close> accept.
\<close>

datatype cell = Text string | NaN | PyNone

datatype error = TypeError | ValueError | AttributeError | OverflowError | HTTPError

definition dquote :: char where
  "dquote = CHR 0x22"

definition is_digit :: "char \<Rightarrow> bool" where
  "is_digit c = (c \<in> set ''0123456789'')"

definition is_space :: "char \<Rightarrow> bool" where
  "is_space c = (c \<in> {CHR 0x09, CHR 0x0A, CHR 0x0B, CHR 0x0C, CHR 0x0D,
                       CHR 0x1C, CHR 0x1D, CHR 0x1E, CHR 0x1F, CHR 0x20})"

text \<open>\<^verbatim>\<open>astype(str)\<close> on one cell.\<close>

fun astype_str :: "cell \<Rightarrow> string" where
  "astype_str (Text s) = s"
| "astype_str NaN = ''nan''"
| "astype_str PyNone = ''None''"

subsection \<open>Python string operations\<close>

text \<open>\<^verbatim>\<open>s.split(c)\<close> for a one-character separator: never empty, one more part than
  there are separators.\<close>

fun split_on :: "char \<Rightarrow> string \<Rightarrow> string list" where
  "split_on c [] = [[]]"
| "split_on c (x # xs) =
     (if x = c then [] # split_on c xs
      else (case split_on c xs of
              [] \<Rightarrow> [[x]]
            | p # ps \<Rightarrow> (x # p) # ps))"

text \<open>\<^verbatim>\<open>s.strip()\<close>.\<close>

definition strip :: "string \<Rightarrow> string" where
  "strip s = rev (dropWhile is_space (rev (dropWhile is_space s)))"

text \<open>\<^verbatim>\<open>df['Single Name'].str.split('"').str[1]\<close> on one cell: the element at index 1
  of the split, NaN where there is none or the cell is not a string.\<close>

fun single_name :: "cell \<Rightarrow> string option" where
  "single_name (Text s) =
     (case split_on dquote s of
        _ # p # _ \<Rightarrow> Some p
      | _ \<Rightarrow> None)"
| "single_name _ = None"


text \<open>\<^verbatim>\<open>re.sub(r'\(.*\)', '', s)\<close>: the dot does not match a newline and the star is
  greedy, so a match runs from an opening parenthesis to the last closing parenthesis
  of the same line; the scan goes on after the match.\<close>

definition paren_match_len :: "string \<Rightarrow> nat option" where
  "paren_match_len cs =
     (let line = takeWhile (\<lambda>x. x \<noteq> CHR 0x0A) cs
      in if CHR '')'' \<in> set line
         then Some (length line - length (takeWhile (\<lambda>x. x \<noteq> CHR '')'') (rev line)))
         else None)"

function remove_parens :: "string \<Rightarrow> string" where
  "remove_parens [] = []"
| "remove_parens (c # cs) =
     (if c = CHR ''(''
      then (case paren_match_len cs of
              Some n \<Rightarrow> remove_parens (drop n cs)
            | None \<Rightarrow> c # remove_parens cs)
      else c # remove_parens cs)"
  by pat_completeness auto
termination
  by (relation "measure length") auto

text \<open>\<^verbatim>\<open>re.sub(r'\[\d+\]', '', s)\<close>: an opening bracket, one or more digits, a closing
  bracket.\<close>

function remove_citations :: "string \<Rightarrow> string" where
  "remove_citations [] = []"
| "remove_citations (c # cs) =
     (if c = CHR ''['' \<and> takeWhile is_digit cs \<noteq> []
         \<and> take 1 (dropWhile is_digit cs) = '']''
      then remove_citations (tl (dropWhile is_digit cs))
      else c # remove_citations cs)"
  by pat_completeness auto
termination
  apply (relation "measure length")
   apply simp
  apply (simp add: less_Suc_eq_le)
  apply (rule order_trans [OF diff_le_self length_dropWhile_le])
  apply simp
  done

text \<open>The three chained \<^verbatim>\<open>.str\<close> calls on a date column; a cell that is not a string is
  left as it is.\<close>

fun clean_date :: "cell \<Rightarrow> cell" where
  "clean_date (Text s) = Text (strip (remove_citations (remove_parens s)))"
| "clean_date c = c"

text \<open>\<^verbatim>\<open>.str.extract(r'(\d+)')\<close>: the first maximal run of digits, NaN without one.\<close>

definition extract_digits :: "string \<Rightarrow> string option" where
  "extract_digits s =
     (let ds = takeWhile is_digit (dropWhile (\<lambda>c. \<not> is_digit c) s)
      in if ds = [] then None else Some ds)"

definition digit_val :: "char \<Rightarrow> int" where
  "digit_val c = int (of_char c) - 48"

definition int_of_digits :: "string \<Rightarrow> int" where
  "int_of_digits ds = foldl (\<lambda>a c. 10 * a + digit_val c) 0 ds"

text \<open>\<^verbatim>\<open>.astype(int)\<close> on one element of the extracted column: NaN cannot be converted,
  and the target type is a 64-bit signed integer.\<close>

definition astype_int :: "string option \<Rightarrow> error + int" where
  "astype_int x =
     (case x of
        None \<Rightarrow> Inl ValueError
      | Some ds \<Rightarrow>
          (if int_of_digits ds < 2 ^ 63 then Inr (int_of_digits ds) else Inl OverflowError))"

text \<open>Python's \<^verbatim>\<open>int(s)\<close> on a string: surrounding whitespace, an optional sign, digits
  with single underscores between them.\<close>

definition valid_int_body :: "string \<Rightarrow> bool" where
  "valid_int_body b =
     (b \<noteq> [] \<and> list_all (\<lambda>c. is_digit c \<or> c = CHR ''_'') b
      \<and> is_digit (hd b) \<and> is_digit (last b)
      \<and> \<not> list_ex (\<lambda>(x, y). x = CHR ''_'' \<and> y = CHR ''_'') (zip b (tl b)))"

definition py_int :: "string \<Rightarrow> error + int" where
  "py_int s =
     (let t = strip s;
          neg = (take 1 t = ''-'');
          b = (if take 1 t = ''-'' \<or> take 1 t = ''+'' then tl t else t)
      in if valid_int_body b
         then Inr ((if neg then - 1 else 1) * int_of_digits (filter (\<lambda>c. c \<noteq> CHR ''_'') b))
         else Inl ValueError)"

text \<open>\<^verbatim>\<open>str(n)\<close> for an integer.\<close>

function str_nat :: "nat \<Rightarrow> string" where
  "str_nat n =
     (if n < 10 then [char_of (48 + n)]
      else str_nat (n div 10) @ [char_of (48 + n mod 10)])"
  by pat_completeness auto
termination
  by (relation "measure id") auto

definition str_int :: "int \<Rightarrow> string" where
  "str_int i = (if i < 0 then CHR ''-'' # str_nat (nat (- i)) else str_nat (nat i))"

text \<open>\<^verbatim>\<open>' '.join(xs)\<close>.\<close>

fun join_space :: "string list \<Rightarrow> string" where
  "join_space [] = []"
| "join_space [x] = x"
| "join_space (x # y # ys) = x @ '' '' @ join_space (y # ys)"

text \<open>Running a conversion over a column stops at the first element that raises.\<close>

fun mapM_sum :: "('a \<Rightarrow> error + 'b) \<Rightarrow> 'a list \<Rightarrow> error + 'b list" where
  "mapM_sum f [] = Inr []"
| "mapM_sum f (x # xs) =
     (case f x of
        Inl e \<Rightarrow> Inl e
      | Inr y \<Rightarrow> (case mapM_sum f xs of Inl e \<Rightarrow> Inl e | Inr ys \<Rightarrow> Inr (y # ys)))"

subsection \<open>Sentinel rows\<close>

text \<open>\<^verbatim>\<open>re.search(r"Singles from \d{4}", s)\<close> finds a match.\<close>

definition four_digits :: "string \<Rightarrow> bool" where
  "four_digits t = (length (take 4 t) = 4 \<and> list_all is_digit (take 4 t))"

definition sentinel_here :: "string \<Rightarrow> bool" where
  "sentinel_here t = (take 13 t = ''Singles from '' \<and> four_digits (drop 13 t))"

fun contains_sentinel :: "string \<Rightarrow> bool" where
  "contains_sentinel [] = False"
| "contains_sentinel (c # cs) = (sentinel_here (c # cs) \<or> contains_sentinel cs)"

text \<open>\<^verbatim>\<open>re.search(r"\d{4}", s)\<close>: the leftmost four consecutive digits.\<close>

fun search_four_digits :: "string \<Rightarrow> string option" where
  "search_four_digits [] = None"
| "search_four_digits (c # cs) =
     (if four_digits (c # cs) then Some (take 4 (c # cs)) else search_four_digits cs)"

text \<open>When the mask is computed the frame already has its \<^verbatim>\<open>Year\<close> column, filled with
  \<^verbatim>\<open>pd.NA\<close>, whose string is \<^verbatim>\<open><NA>\<close>; \<^verbatim>\<open>row.astype(str)\<close> covers it.\<close>

definition row_strs :: "cell list \<Rightarrow> string list" where
  "row_strs r = map astype_str r @ [''<NA>'']"

definition is_sentinel :: "cell list \<Rightarrow> bool" where
  "is_sentinel r = list_ex contains_sentinel (row_strs r)"

text \<open>\<^verbatim>\<open>int(re.search(r"\d{4}", " ".join(row.astype(str))).group())\<close>; a search that
  finds nothing returns \<^verbatim>\<open>None\<close>, whose \<^verbatim>\<open>.group\<close> raises.\<close>

definition sentinel_year :: "cell list \<Rightarrow> error + int" where
  "sentinel_year r =
     (case search_four_digits (join_space (row_strs r)) of
        None \<Rightarrow> Inl AttributeError
      | Some ds \<Rightarrow> Inr (int_of_digits ds))"

text \<open>\<^verbatim>\<open>Series.ffill()\<close>: a missing value takes the last value seen before it; missing
  values at the head stay missing.\<close>

fun ffill_from :: "'a option \<Rightarrow> 'a option list \<Rightarrow> 'a option list" where
  "ffill_from prev [] = []"
| "ffill_from prev (None # xs) = prev # ffill_from prev xs"
| "ffill_from prev (Some v # xs) = Some v # ffill_from (Some v) xs"

definition ffill :: "'a option list \<Rightarrow> 'a option list" where
  "ffill xs = ffill_from None xs"

subsection \<open>Frames\<close>

text \<open>The frame \<^verbatim>\<open>pd.read_html\<close> returns for the page's table: the number of columns
  of its header and the body rows, sentinel rows included. A frame is rectangular: a
  row with fewer cells than the header has NaN in the missing places.\<close>

record table =
  ncols :: nat
  body :: "cell list list"

definition pad :: "nat \<Rightarrow> cell list \<Rightarrow> cell list" where
  "pad n r = take n r @ replicate (n - length r) NaN"

definition column_names :: "string list" where
  "column_names =
     [''Top Ten Entry Date'', ''Single Name'', ''Artist(s)'', ''Peak'', ''Peak Date'',
      ''Weeks in Top Ten'', ''Ref'', ''Year'']"

text \<open>One row of the frame a page is turned into; \<open>'d\<close> is the type of timestamps.\<close>

record 'd entry =
  Top_Ten_Entry_Date :: "'d option"
  Single_Name :: "string option"
  Artists :: cell
  Peak :: int
  Peak_Date :: "'d option"
  Weeks_in_Top_Ten :: int
  Ref :: cell
  Year :: "int option"

record 'd frame =
  columns :: "string list"
  rows :: "'d entry list"

text \<open>\<^verbatim>\<open>pd.DataFrame()\<close>, \<^verbatim>\<open>df.empty\<close> and \<^verbatim>\<open>pd.concat(dfs, ignore_index=True)\<close>.\<close>

definition empty_frame :: "'d frame" where
  "empty_frame = \<lparr>columns = [], rows = []\<rparr>"

definition df_empty :: "'d frame \<Rightarrow> bool" where
  "df_empty df = (columns df = [] \<or> rows df = [])"

definition pd_concat :: "'d frame list \<Rightarrow> 'd frame" where
  "pd_concat dfs = \<lparr>columns = remdups (concat (map columns dfs)), rows = concat (map rows dfs)\<rparr>"

subsection \<open>One page\<close>

text \<open>\<^verbatim>\<open>int(url[-4:])\<close>.\<close>

definition url_year :: "string \<Rightarrow> error + int" where
  "url_year url = py_int (drop (length url - 4) url)"

text \<open>Lines 80 to 82: a frame of six columns gets a \<^verbatim>\<open>Ref\<close> column of \<^verbatim>\<open>None\<close>.\<close>

definition add_ref :: "table \<Rightarrow> table" where
  "add_ref t =
     (if ncols t = 6
      then \<lparr>ncols = 7, body = map (\<lambda>r. pad 6 r @ [PyNone]) (body t)\<rparr>
      else \<lparr>ncols = ncols t, body = map (pad (ncols t)) (body t)\<rparr>)"

text \<open>Lines 85 to 106: the \<^verbatim>\<open>Year\<close> column. It starts as \<^verbatim>\<open>pd.NA\<close> everywhere; without a
  sentinel row it is the year of the URL, otherwise the sentinel rows get the year
  found in them; then it is forward-filled.\<close>

definition year_column :: "int \<Rightarrow> cell list list \<Rightarrow> error + int option list" where
  "year_column year rs =
     (case (if \<not> list_ex is_sentinel rs
            then Inr (map (\<lambda>_. Some year) rs)
            else mapM_sum (\<lambda>r. if is_sentinel r
                                then (case sentinel_year r of
                                        Inl e \<Rightarrow> Inl e
                                      | Inr y \<Rightarrow> Inr (Some y))
                                else Inr None) rs) of
        Inl e \<Rightarrow> Inl e
      | Inr ys \<Rightarrow> Inr (ffill ys))"

text \<open>What the sentinel branch stores in \<^verbatim>\<open>Year\<close> at a row before the forward fill:
  the year found in a sentinel row, nothing in any other row.\<close>

definition marker :: "cell list \<Rightarrow> int option" where
  "marker r = (if is_sentinel r then Some (projr (sentinel_year r)) else None)"

text \<open>Line 109: \<^verbatim>\<open>df[~mask]\<close>.\<close>

definition drop_sentinels :: "(cell list \<times> int option) list \<Rightarrow> (cell list \<times> int option) list" where
  "drop_sentinels rys = filter (\<lambda>ry. \<not> is_sentinel (fst ry)) rys"

definition resolve_sentinels :: "int \<Rightarrow> cell list list \<Rightarrow> error + (cell list \<times> int option) list" where
  "resolve_sentinels year rs =
     (case year_column year rs of
        Inl e \<Rightarrow> Inl e
      | Inr ys \<Rightarrow> Inr (drop_sentinels (zip rs ys)))"

text \<open>Lines 115 to 130: the strings handed to \<^verbatim>\<open>pd.to_datetime\<close>. The peak date gets
  \<^verbatim>\<open>str(year)\<close>, the year of the URL; the entry date gets the row's \<^verbatim>\<open>Year\<close>.\<close>

definition year_str :: "int option \<Rightarrow> string" where
  "year_str y = (case y of None \<Rightarrow> ''<NA>'' | Some v \<Rightarrow> str_int v)"

definition peak_date_text :: "int \<Rightarrow> cell list \<Rightarrow> string" where
  "peak_date_text year r = astype_str (clean_date (r ! 4)) @ '' '' @ str_int year"

definition entry_date_text :: "cell list \<times> int option \<Rightarrow> string" where
  "entry_date_text ry = astype_str (clean_date (fst ry ! 0)) @ '' '' @ year_str (snd ry)"

text \<open>Lines 136 to 141 on one row.\<close>

definition weeks_of :: "cell list \<Rightarrow> error + int" where
  "weeks_of r = astype_int (extract_digits (astype_str (r ! 5)))"

definition peak_of :: "cell list \<Rightarrow> error + int" where
  "peak_of r = astype_int (extract_digits (astype_str (r ! 3)))"

text \<open>The \<^verbatim>\<open>.str\<close> accessor is there for a column of object dtype and raises an
  \<^verbatim>\<open>AttributeError\<close> for a column of floats. The dtype is that of the column as it was
  read, sentinel rows included: a column in which every cell is NaN is a column of
  floats, a column of a frame without rows is of object dtype.\<close>

definition str_column :: "cell list list \<Rightarrow> nat \<Rightarrow> bool" where
  "str_column rs k = (rs = [] \<or> list_ex (\<lambda>r. r ! k \<noteq> NaN) rs)"

text \<open>Lines 112 to 141; \<open>rs\<close> are the rows of the frame as it was read, \<open>kept\<close> those
  left after line 109 with their years. \<^verbatim>\<open>pd.to_datetime(column, errors='coerce')\<close> is a
  parameter: \<open>to_datetime col i\<close> is the timestamp at position \<open>i\<close> of the parsed column
  \<open>col\<close>, \<open>None\<close> for NaT. Assigning eight names to a frame of another width raises.\<close>

definition normalize_rows ::
  "(string list \<Rightarrow> nat \<Rightarrow> 'd option) \<Rightarrow> int \<Rightarrow> nat \<Rightarrow> cell list list
     \<Rightarrow> (cell list \<times> int option) list \<Rightarrow> error + 'd frame" where
  "normalize_rows to_datetime year width rs kept =
     (if width + 1 \<noteq> length column_names then Inl ValueError
      else if \<not> (str_column rs 4 \<and> str_column rs 0 \<and> str_column rs 1) then Inl AttributeError
      else
        (let peak_texts = map (\<lambda>ry. peak_date_text year (fst ry)) kept;
             entry_texts = map entry_date_text kept
         in case mapM_sum (\<lambda>ry. weeks_of (fst ry)) kept of
              Inl e \<Rightarrow> Inl e
            | Inr weeks \<Rightarrow>
                (case mapM_sum (\<lambda>ry. peak_of (fst ry)) kept of
                   Inl e \<Rightarrow> Inl e
                 | Inr peaks \<Rightarrow>
                     Inr \<lparr>columns = column_names,
                          rows = map (\<lambda>i.
                            \<lparr>Top_Ten_Entry_Date = to_datetime entry_texts i,
                             Single_Name = single_name (fst (kept ! i) ! 1),
                             Artists = fst (kept ! i) ! 2,
                             Peak = peaks ! i,
                             Peak_Date = to_datetime peak_texts i,
                             Weeks_in_Top_Ten = weeks ! i,
                             Ref = fst (kept ! i) ! 6,
                             Year = snd (kept ! i)\<rparr>) [0..<length kept]\<rparr>)))"

text \<open>Lines 75 to 141 on the frame \<open>t\<close> that line 78 reads from the page.\<close>

definition process_table ::
  "(string list \<Rightarrow> nat \<Rightarrow> 'd option) \<Rightarrow> string \<Rightarrow> table \<Rightarrow> error + 'd frame" where
  "process_table to_datetime url t =
     (case url_year url of
        Inl e \<Rightarrow> Inl e
      | Inr year \<Rightarrow>
          (case resolve_sentinels year (body (add_ref t)) of
             Inl e \<Rightarrow> Inl e
           | Inr kept \<Rightarrow>
               normalize_rows to_datetime year (ncols (add_ref t)) (body (add_ref t)) kept))"

subsection \<open>The run\<close>

text \<open>What the program does to the outside: the URLs it requested, the lines it
  printed, the directories and files it made.\<close>

record world =
  requests :: "string list"
  stdout :: "string list"
  dirs :: "string set"
  files :: "string \<rightharpoonup> string"

text \<open>One pass of the loop of \<^verbatim>\<open>scrape_data\<close> without its printing. \<open>fetch\<close> stands
  for the network and the HTML parsers: \<open>fetch url\<close> is \<open>Inl e\<close> when the request, its
  status check or the search for the first \<^verbatim>\<open>wikitable\<close> raises \<open>e\<close> (lines 62 to 72),
  and otherwise \<open>Inr\<close> of what \<^verbatim>\<open>pd.read_html\<close> makes of that table at line 78, a frame or
  an exception. The year of the URL is computed at line 75, between the two.\<close>

definition scrape_page ::
  "(string \<Rightarrow> error + (error + table)) \<Rightarrow> (string list \<Rightarrow> nat \<Rightarrow> 'd option) \<Rightarrow> string
     \<Rightarrow> error + 'd frame" where
  "scrape_page fetch to_datetime url =
     (case fetch url of
        Inl e \<Rightarrow> Inl e
      | Inr parsed \<Rightarrow>
          (case url_year url of
             Inl e \<Rightarrow> Inl e
           | Inr year \<Rightarrow>
               (case parsed of
                  Inl e \<Rightarrow> Inl e
                | Inr t \<Rightarrow> process_table to_datetime url t)))"

text \<open>The loop: an exception leaves it with the world as it is then.\<close>

fun scrape_loop ::
  "(string \<Rightarrow> error + (error + table)) \<Rightarrow> (string list \<Rightarrow> nat \<Rightarrow> 'd option) \<Rightarrow> string list
     \<Rightarrow> 'd frame list \<Rightarrow> world \<Rightarrow> (error + 'd frame list) \<times> world" where
  "scrape_loop fetch to_datetime [] all_data w = (Inr all_data, w)"
| "scrape_loop fetch to_datetime (url # urls) all_data w =
     (let w1 = w\<lparr>stdout := stdout w @ [''Scraping URL: '' @ url],
                 requests := requests w @ [url]\<rparr>
      in case scrape_page fetch to_datetime url of
           Inl e \<Rightarrow> (Inl e, w1)
         | Inr df \<Rightarrow> scrape_loop fetch to_datetime urls (all_data @ [df]) w1)"

text \<open>\<^verbatim>\<open>scrape_data(urls=None)\<close>: iterating over \<^verbatim>\<open>None\<close> raises a \<^verbatim>\<open>TypeError\<close>.\<close>

definition scrape_data ::
  "(string \<Rightarrow> error + (error + table)) \<Rightarrow> (string list \<Rightarrow> nat \<Rightarrow> 'd option) \<Rightarrow> string list option
     \<Rightarrow> world \<Rightarrow> (error + 'd frame) \<times> world" where
  "scrape_data fetch to_datetime urls w =
     (case urls of
        None \<Rightarrow> (Inl TypeError, w)
      | Some us \<Rightarrow>
          (case scrape_loop fetch to_datetime us [] w of
             (Inl e, w') \<Rightarrow> (Inl e, w')
           | (Inr all_data, w') \<Rightarrow>
               (Inr (if all_data \<noteq> [] then pd_concat all_data else empty_frame), w')))"

text \<open>\<^verbatim>\<open>os.path.join(a, b)\<close> on POSIX paths.\<close>

definition path_join :: "string \<Rightarrow> string \<Rightarrow> string" where
  "path_join a b =
     (if take 1 b = ''/'' then b
      else if a = [] \<or> last a = CHR ''/'' then a @ b
      else a @ ''/'' @ b)"

text \<open>\<^verbatim>\<open>save_to_csv\<close>. \<open>to_csv\<close> is the text \<^verbatim>\<open>DataFrame.to_csv\<close> writes, \<open>stamp\<close> is
  \<^verbatim>\<open>datetime.now().strftime("%Y_%m")\<close>, \<open>repo_root\<close> the directory above \<^verbatim>\<open>utils\<close>.\<close>

definition save_to_csv ::
  "('d frame \<Rightarrow> string) \<Rightarrow> string \<Rightarrow> string \<Rightarrow> 'd frame \<Rightarrow> string option \<Rightarrow> world \<Rightarrow> world" where
  "save_to_csv to_csv stamp repo_root df filename w =
     (if df_empty df then w\<lparr>stdout := stdout w @ [''No data to save.'']\<rparr>
      else
        (let fname = (case filename of
                        None \<Rightarrow> ''billboard_data_'' @ stamp @ ''.csv''
                      | Some f \<Rightarrow> f);
             data_folder = path_join repo_root ''data'';
             file_path = path_join data_folder fname
         in w\<lparr>dirs := insert data_folder (dirs w),
              files := (files w)(file_path \<mapsto> to_csv df),
              stdout := stdout w @ [''Data saved to '' @ file_path]\<rparr>))"

subsection \<open>Fixtures\<close>

text \<open>A server that answers from a fixed list of pages and fails on any other URL, and
  a date parser that returns the text it is given, so that the string handed to
  \<^verbatim>\<open>pd.to_datetime\<close> shows in the result.\<close>

definition serve :: "(string \<times> table) list \<Rightarrow> string \<Rightarrow> error + (error + table)" where
  "serve pages url =
     (case map_of pages url of None \<Rightarrow> Inl HTTPError | Some t \<Rightarrow> Inr (Inr t))"

definition verbatim_datetime :: "string list \<Rightarrow> nat \<Rightarrow> string option" where
  "verbatim_datetime col i = (if i < length col then Some (col ! i) else None)"

definition no_world :: world where
  "no_world = \<lparr>requests = [], stdout = [], dirs = {}, files = Map.empty\<rparr>"

definition url_2024 :: string where
  "url_2024 = ''/wiki/List_of_top-ten_singles_in_2024''"

definition url_1999 :: string where
  "url_1999 = ''/wiki/List_of_top-ten_singles_in_1999''"

text \<open>A page of one year, with a \<^verbatim>\<open>Ref\<close> column and no sentinel row.\<close>

definition single_year_table :: table where
  "single_year_table =
     \<lparr>ncols = 7,
      body = [[Text ''January 6'', Text (dquote # ''Song A'' @ dquote # '' performed by''),
               Text ''Artist X'', Text ''3'', Text ''January 20 (tie)[12]'', Text ''5 weeks'',
               NaN]]\<rparr>"

text \<open>A page of two years and six columns: a data row, the sentinel of 2023, a data
  row, the sentinel of 2024, a data row. A sentinel cell spans the row, so its text is
  in every column.\<close>

definition multi_year_table :: table where
  "multi_year_table =
     \<lparr>ncols = 6,
      body = [[Text ''Dec 30'', Text (dquote # ''Early'' @ [dquote]), Text ''W'', Text ''1'',
               Text ''Jan 6'', Text ''9''],
              replicate 6 (Text ''Singles from 2023''),
              [Text ''Dec 2'', Text (dquote # ''Late'' @ [dquote]), Text ''V'', Text ''2'',
               Text ''Jan 13'', Text ''4''],
              replicate 6 (Text ''Singles from 2024''),
              [Text ''Feb 3'', Text (dquote # ''New'' @ [dquote]), Text ''U'', Text ''7'',
               Text ''Feb 10'', Text ''1'']]\<rparr>"

text \<open>A page whose only row has no digit in its \<^verbatim>\<open>Weeks in Top Ten\<close> cell.\<close>

definition no_weeks_table :: table where
  "no_weeks_table =
     \<lparr>ncols = 6,
      body = [[Text ''Mar 2'', Text (dquote # ''Odd'' @ [dquote]), Text ''T'', Text ''4'',
               Text ''Mar 9'', Text ''n/a'']]\<rparr>"

definition bad_site :: "(string \<times> table) list" where
  "bad_site = [(url_1999, no_weeks_table)]"

definition site :: "(string \<times> table) list" where
  "site = [(url_2024, multi_year_table), (url_1999, single_year_table)]"

text \<open>The frames the two pages of \<open>site\<close> are turned into.\<close>

definition multi_year_frame :: "string frame" where
  "multi_year_frame =
     \<lparr>columns = column_names,
      rows = [\<lparr>Top_Ten_Entry_Date = Some ''Dec 30 <NA>'', Single_Name = Some ''Early'',
               Artists = Text ''W'', Peak = 1, Peak_Date = Some ''Jan 6 2024'',
               Weeks_in_Top_Ten = 9, Ref = PyNone, Year = None\<rparr>,
              \<lparr>Top_Ten_Entry_Date = Some ''Dec 2 2023'', Single_Name = Some ''Late'',
               Artists = Text ''V'', Peak = 2, Peak_Date = Some ''Jan 13 2024'',
               Weeks_in_Top_Ten = 4, Ref = PyNone, Year = Some 2023\<rparr>,
              \<lparr>Top_Ten_Entry_Date = Some ''Feb 3 2024'', Single_Name = Some ''New'',
               Artists = Text ''U'', Peak = 7, Peak_Date = Some ''Feb 10 2024'',
               Weeks_in_Top_Ten = 1, Ref = PyNone, Year = Some 2024\<rparr>]\<rparr>"

definition single_year_frame :: "string frame" where
  "single_year_frame =
     \<lparr>columns = column_names,
      rows = [\<lparr>Top_Ten_Entry_Date = Some ''January 6 1999'', Single_Name = Some ''Song A'',
               Artists = Text ''Artist X'', Peak = 3, Peak_Date = Some ''January 20 1999'',
               Weeks_in_Top_Ten = 5, Ref = NaN, Year = Some 1999\<rparr>]\<rparr>"

section \<open>Single Name\<close>

lemma split_on_nonempty: "split_on c s \<noteq> []"
  by (induction s) (auto split: list.splits)

lemma split_on_no_sep: "c \<notin> set s \<Longrightarrow> split_on c s = [s]"
  by (induction s) auto

lemma split_on_hd: "hd (split_on c s) = takeWhile (\<lambda>x. x \<noteq> c) s"
  by (induction s) (auto split: list.splits simp: split_on_nonempty)

lemma split_on_append_sep:
  "c \<notin> set a \<Longrightarrow> split_on c (a @ c # rest) = a # split_on c rest"
  by (induction a) (auto split: list.splits simp: split_on_nonempty)

text \<open>
  Claim C4, as the code has it. The claim says that a cell with fewer than two double
  quotes gives a null name. With no quote it does. With exactly one quote the split has
  two parts, and the name is the text after the quote:
\<close>

theorem single_name_one_quote_counterexample:
  "count_list (''Song '' @ [dquote] @ ''A'') dquote = 1
   \<and> single_name (Text (''Song '' @ [dquote] @ ''A'')) = Some ''A''"
  by (simp add: dquote_def)

text \<open>
  Claim C4, amended: for a text cell, the Single Name is null when the text has no
  double quote; it is the text after the quote when there is exactly one; and it is the
  text strictly between the first and the second double quote when there are two or
  more.
\<close>

theorem single_name_cases:
  "(dquote \<notin> set s \<longrightarrow> single_name (Text s) = None)
   \<and> (dquote \<notin> set a \<and> dquote \<notin> set b \<longrightarrow> single_name (Text (a @ dquote # b)) = Some b)
   \<and> (dquote \<notin> set a \<and> dquote \<notin> set b \<longrightarrow>
        single_name (Text (a @ dquote # b @ dquote # rest)) = Some b)"
  by (auto simp: split_on_append_sep split_on_no_sep split: list.splits)

theorem single_name_cases_witness:
  "dquote \<notin> set ''Song'' \<and> single_name (Text ''Song'') = None
   \<and> dquote \<notin> set ''x '' \<and> dquote \<notin> set ''Song A''
   \<and> single_name (Text (''x '' @ dquote # ''Song A'')) = Some ''Song A''
   \<and> single_name (Text (''x '' @ dquote # ''Song A'' @ dquote # '' by'')) = Some ''Song A''"
proof -
  have q: "dquote \<notin> set ''Song''" "dquote \<notin> set ''x ''" "dquote \<notin> set ''Song A''"
    by (simp_all add: dquote_def)
  from q single_name_cases [of "''Song''" "''x ''" "''Song A''" "'' by''"]
  show ?thesis by blast
qed

section \<open>The pages of the fixtures\<close>

lemma multi_year_page:
  "process_table verbatim_datetime url_2024 multi_year_table = Inr multi_year_frame"
  by code_simp

lemma single_year_page:
  "process_table verbatim_datetime url_1999 single_year_table = Inr single_year_frame"
  by code_simp

lemma site_url_2024: "scrape_page (serve site) verbatim_datetime url_2024 = Inr multi_year_frame"
proof -
  have "serve site url_2024 = Inr (Inr multi_year_table)" by code_simp
  moreover have "url_year url_2024 = Inr 2024" by code_simp
  ultimately show ?thesis by (simp add: scrape_page_def multi_year_page)
qed

lemma site_url_1999: "scrape_page (serve site) verbatim_datetime url_1999 = Inr single_year_frame"
proof -
  have "serve site url_1999 = Inr (Inr single_year_table)" by code_simp
  moreover have "url_year url_1999 = Inr 1999" by code_simp
  ultimately show ?thesis by (simp add: scrape_page_def single_year_page)
qed

lemma site_run_2024:
  "scrape_data (serve site) verbatim_datetime (Some [url_2024]) no_world
     = (Inr (pd_concat [multi_year_frame]),
        no_world\<lparr>stdout := [''Scraping URL: '' @ url_2024], requests := [url_2024]\<rparr>)"
proof -
  have "scrape_loop (serve site) verbatim_datetime [url_2024] [] no_world
     = (Inr [multi_year_frame],
        no_world\<lparr>stdout := [''Scraping URL: '' @ url_2024], requests := [url_2024]\<rparr>)"
    by (simp add: site_url_2024 no_world_def)
  then show ?thesis
    by (simp add: scrape_data_def)
qed

section \<open>Sentinel resolution\<close>

subsection \<open>mapM\<close>

lemma mapM_sum_all_Inr:
  "\<forall>x\<in>set xs. f x = Inr (g x) \<Longrightarrow> mapM_sum f xs = Inr (map g xs)"
  by (induction xs) auto

lemma mapM_sum_Inr_length:
  "mapM_sum f xs = Inr ys \<Longrightarrow> length ys = length xs"
  by (induction xs arbitrary: ys) (auto split: sum.splits)

lemma mapM_sum_Inr_nth:
  "mapM_sum f xs = Inr ys \<Longrightarrow> i < length xs \<Longrightarrow> f (xs ! i) = Inr (ys ! i)"
proof (induction xs arbitrary: ys i)
  case Nil
  then show ?case by simp
next
  case (Cons x xs)
  then show ?case
    by (cases i) (auto split: sum.splits)
qed


subsection \<open>four digits\<close>

lemma four_digits_append: "four_digits t \<Longrightarrow> four_digits (t @ q)"
  by (auto simp: four_digits_def)

lemma search_four_digits_append_right:
  "search_four_digits s \<noteq> None \<Longrightarrow> search_four_digits (s @ q) \<noteq> None"
proof (induction s)
  case Nil
  then show ?case by simp
next
  case (Cons c cs)
  show ?case
  proof (cases "four_digits (c # cs)")
    case True
    then have "four_digits ((c # cs) @ q)" by (rule four_digits_append)
    then show ?thesis by simp
  next
    case False
    with Cons have "search_four_digits (cs @ q) \<noteq> None" by simp
    then show ?thesis by simp
  qed
qed

lemma search_four_digits_append_left:
  "search_four_digits s \<noteq> None \<Longrightarrow> search_four_digits (p @ s) \<noteq> None"
  by (induction p) auto

lemma four_digits_search: "four_digits t \<Longrightarrow> search_four_digits t \<noteq> None"
  by (cases t) (auto simp: four_digits_def)

lemma sentinel_here_search: "sentinel_here t \<Longrightarrow> search_four_digits t \<noteq> None"
proof -
  assume "sentinel_here t"
  then have "four_digits (drop 13 t)" by (simp add: sentinel_here_def)
  then have "search_four_digits (take 13 t @ drop 13 t) \<noteq> None"
    by (intro search_four_digits_append_left four_digits_search)
  then show ?thesis by simp
qed

lemma contains_sentinel_search: "contains_sentinel s \<Longrightarrow> search_four_digits s \<noteq> None"
proof (induction s)
  case Nil
  then show ?case by simp
next
  case (Cons c cs)
  show ?case
  proof (cases "sentinel_here (c # cs)")
    case True
    then show ?thesis by (rule sentinel_here_search)
  next
    case False
    with Cons have "search_four_digits cs \<noteq> None" by simp
    then show ?thesis by simp
  qed
qed

lemma join_space_search:
  "s \<in> set xs \<Longrightarrow> search_four_digits s \<noteq> None \<Longrightarrow> search_four_digits (join_space xs) \<noteq> None"
proof (induction xs rule: join_space.induct)
  case 1
  then show ?case by simp
next
  case (2 x)
  then show ?case by simp
next
  case (3 x y ys)
  show ?case
  proof (cases "s = x")
    case True
    with 3 show ?thesis by (simp add: search_four_digits_append_right)
  next
    case False
    with 3 have "search_four_digits (join_space (y # ys)) \<noteq> None" by simp
    then have "search_four_digits ((x @ '' '') @ join_space (y # ys)) \<noteq> None"
      by (rule search_four_digits_append_left)
    then show ?thesis by simp
  qed
qed

lemma sentinel_year_defined:
  assumes "is_sentinel r"
  shows "\<exists>y. sentinel_year r = Inr y"
proof -
  from assms obtain s where "s \<in> set (row_strs r)" "contains_sentinel s"
    by (auto simp: is_sentinel_def list_ex_iff)
  then have "search_four_digits (join_space (row_strs r)) \<noteq> None"
    by (intro join_space_search [of s] contains_sentinel_search)
  then show ?thesis
    by (auto simp: sentinel_year_def)
qed

subsection \<open>ffill\<close>

lemma length_ffill_from: "length (ffill_from p xs) = length xs"
  by (induction p xs rule: ffill_from.induct) auto

lemma ffill_from_all_Some: "ffill_from p (map (\<lambda>_. Some v) xs) = map (\<lambda>_. Some v) xs"
  by (induction xs arbitrary: p) auto

lemma ffill_from_append_Some:
  "ffill_from p (xs @ Some v # ys) = ffill_from p xs @ Some v # ffill_from (Some v) ys"
  by (induction p xs rule: ffill_from.induct) auto

lemma ffill_from_Nones:
  "ffill_from p (replicate n None @ ys) = replicate n p @ ffill_from p ys"
  by (induction n) auto

subsection \<open>the Year column\<close>

lemma year_column_no_sentinel:
  "\<not> list_ex is_sentinel rs \<Longrightarrow> year_column year rs = Inr (map (\<lambda>_. Some year) rs)"
  by (simp add: year_column_def ffill_def ffill_from_all_Some)

lemma year_column_sentinel:
  assumes "list_ex is_sentinel rs"
  shows "year_column year rs = Inr (ffill (map marker rs))"
proof -
  have "\<forall>r\<in>set rs. (if is_sentinel r
            then (case sentinel_year r of Inl e \<Rightarrow> Inl e | Inr y \<Rightarrow> Inr (Some y))
            else Inr None) = Inr (marker r)"
    using sentinel_year_defined by (fastforce simp: marker_def)
  then have "mapM_sum (\<lambda>r. if is_sentinel r
            then (case sentinel_year r of Inl e \<Rightarrow> Inl e | Inr y \<Rightarrow> Inr (Some y))
            else Inr None) rs = Inr (map marker rs)"
    by (rule mapM_sum_all_Inr)
  then show ?thesis
    using assms by (simp add: year_column_def)
qed

lemma year_column_total: "\<exists>ys. year_column year rs = Inr ys \<and> length ys = length rs"
  by (cases "list_ex is_sentinel rs")
     (simp_all add: year_column_no_sentinel year_column_sentinel ffill_def length_ffill_from)

lemma map_fst_drop_sentinels:
  "length rs = length ys \<Longrightarrow>
   map fst (drop_sentinels (zip rs ys)) = filter (\<lambda>r. \<not> is_sentinel r) rs"
  by (induction rs ys rule: list_induct2) (auto simp: drop_sentinels_def)

lemma drop_sentinels_append:
  "drop_sentinels (xs @ ys) = drop_sentinels xs @ drop_sentinels ys"
  by (simp add: drop_sentinels_def)

lemma drop_sentinels_Cons:
  "drop_sentinels (x # xs)
     = (if is_sentinel (fst x) then drop_sentinels xs else x # drop_sentinels xs)"
  by (simp add: drop_sentinels_def)

lemma drop_sentinels_keep:
  "\<not> list_ex is_sentinel seg \<Longrightarrow>
   drop_sentinels (zip seg (replicate (length seg) y)) = map (\<lambda>r. (r, y)) seg"
  by (induction seg) (auto simp: drop_sentinels_def)

lemma resolve_no_sentinel:
  "\<not> list_ex is_sentinel rs \<Longrightarrow>
   resolve_sentinels year rs = Inr (map (\<lambda>r. (r, Some year)) rs)"
proof -
  assume a: "\<not> list_ex is_sentinel rs"
  have "zip rs (map (\<lambda>_. Some year) rs) = map (\<lambda>r. (r, Some year)) rs"
    by (induction rs) auto
  moreover have "drop_sentinels (map (\<lambda>r. (r, Some year)) rs) = map (\<lambda>r. (r, Some year)) rs"
    using a by (induction rs) (auto simp: drop_sentinels_def)
  ultimately show ?thesis
    using a by (simp add: resolve_sentinels_def year_column_no_sentinel)
qed

lemma resolve_segment:
  assumes m: "is_sentinel m" and seg: "\<not> list_ex is_sentinel seg"
  shows "\<exists>y A B. sentinel_year m = Inr y
           \<and> resolve_sentinels year (pre @ m # seg @ post)
               = Inr (A @ map (\<lambda>r. (r, Some y)) seg @ B)
           \<and> map fst A = filter (\<lambda>r. \<not> is_sentinel r) pre
           \<and> map fst B = filter (\<lambda>r. \<not> is_sentinel r) post"
proof -
  from sentinel_year_defined [OF m] obtain y where y: "sentinel_year m = Inr y" ..
  let ?rs = "pre @ m # seg @ post"
  have ex: "list_ex is_sentinel ?rs" using m by simp
  have mm: "marker m = Some y" using m y by (simp add: marker_def)
  have ms: "map marker seg = replicate (length seg) None"
    using seg by (induction seg) (auto simp: marker_def)
  let ?A = "ffill_from None (map marker pre)"
  let ?B = "ffill_from (Some y) (map marker post)"
  have ff: "ffill (map marker ?rs) = ?A @ Some y # replicate (length seg) (Some y) @ ?B"
    by (simp add: ffill_def mm ms ffill_from_append_Some ffill_from_Nones)
  have z: "zip ?rs (?A @ Some y # replicate (length seg) (Some y) @ ?B)
         = zip pre ?A @ (m, Some y) # zip seg (replicate (length seg) (Some y)) @ zip post ?B"
    by (simp add: length_ffill_from)
  have d: "drop_sentinels (zip ?rs (ffill (map marker ?rs)))
         = drop_sentinels (zip pre ?A) @ map (\<lambda>r. (r, Some y)) seg @ drop_sentinels (zip post ?B)"
    unfolding ff z
    using m by (simp add: drop_sentinels_append drop_sentinels_Cons drop_sentinels_keep [OF seg])
  have "resolve_sentinels year ?rs
      = Inr (drop_sentinels (zip pre ?A) @ map (\<lambda>r. (r, Some y)) seg @ drop_sentinels (zip post ?B))"
    by (simp only: resolve_sentinels_def year_column_sentinel [OF ex] sum.case d)
  moreover have "map fst (drop_sentinels (zip pre ?A)) = filter (\<lambda>r. \<not> is_sentinel r) pre"
    by (rule map_fst_drop_sentinels) (simp add: length_ffill_from)
  moreover have "map fst (drop_sentinels (zip post ?B)) = filter (\<lambda>r. \<not> is_sentinel r) post"
    by (rule map_fst_drop_sentinels) (simp add: length_ffill_from)
  ultimately show ?thesis using y by blast
qed

section \<open>One page, end to end\<close>

lemma normalize_rows_length:
  "normalize_rows td year width rs kept = Inr df \<Longrightarrow> length (rows df) = length kept"
  by (auto simp: normalize_rows_def Let_def split: if_splits sum.splits)

lemma normalize_rows_width:
  "normalize_rows td year width rs kept = Inr df \<Longrightarrow> width = 7"
  by (auto simp: normalize_rows_def column_names_def split: if_splits)

lemma normalize_rows_nth:
  assumes "normalize_rows td year width rs kept = Inr df" and "i < length kept"
  shows "Year (rows df ! i) = snd (kept ! i)"
    and "Artists (rows df ! i) = fst (kept ! i) ! 2"
    and "Ref (rows df ! i) = fst (kept ! i) ! 6"
    and "Single_Name (rows df ! i) = single_name (fst (kept ! i) ! 1)"
    and "Peak_Date (rows df ! i) = td (map (peak_date_text year) (map fst kept)) i"
    and "Top_Ten_Entry_Date (rows df ! i) = td (map entry_date_text kept) i"
    and "peak_of (fst (kept ! i)) = Inr (Peak (rows df ! i))"
    and "weeks_of (fst (kept ! i)) = Inr (Weeks_in_Top_Ten (rows df ! i))"
  using assms
  by (auto simp: normalize_rows_def Let_def comp_def
           split: if_splits sum.splits dest: mapM_sum_Inr_nth)

lemma process_table_Inr:
  assumes "process_table td url t = Inr df"
  obtains year kept where "url_year url = Inr year"
    and "resolve_sentinels year (body (add_ref t)) = Inr kept"
    and "normalize_rows td year (ncols (add_ref t)) (body (add_ref t)) kept = Inr df"
  using assms by (auto simp: process_table_def split: sum.splits)

lemma resolve_kept_rows:
  assumes "resolve_sentinels year rs = Inr kept"
  shows "map fst kept = filter (\<lambda>r. \<not> is_sentinel r) rs"
proof -
  from year_column_total [of year rs] obtain ys
    where ys: "year_column year rs = Inr ys" "length ys = length rs" by blast
  with assms have "kept = drop_sentinels (zip rs ys)"
    by (simp add: resolve_sentinels_def)
  with ys show ?thesis by (simp add: map_fst_drop_sentinels)
qed

text \<open>
  Claim C1: on a page that is processed to a frame, the rows of the frame are the rows
  of the table that are not sentinel rows, in their order. If the table has no sentinel
  row, every entry has the year of the URL. If it has, then for every sentinel row
  \<open>m\<close> and the stretch \<open>seg\<close> of data rows that follows it up to the next sentinel row
  (or some of them), the year is found in \<open>m\<close> and each row of \<open>seg\<close> has that year: a
  data row has the year of the nearest sentinel row before it.
\<close>

theorem year_assignment:
  assumes ok: "process_table td url t = Inr df" and yr: "url_year url = Inr year"
  shows "length (rows df) = length (filter (\<lambda>r. \<not> is_sentinel r) (body (add_ref t)))
    \<and> (\<not> list_ex is_sentinel (body (add_ref t)) \<longrightarrow> (\<forall>e\<in>set (rows df). Year e = Some year))
    \<and> (body (add_ref t) = pre @ m # seg @ post \<and> is_sentinel m \<and> \<not> list_ex is_sentinel seg \<longrightarrow>
         (\<exists>y. sentinel_year m = Inr y
            \<and> (\<forall>j<length seg.
                  Year (rows df ! (length (filter (\<lambda>r. \<not> is_sentinel r) pre) + j)) = Some y)))"
proof -
  from ok yr obtain kept
    where res: "resolve_sentinels year (body (add_ref t)) = Inr kept"
      and norm: "normalize_rows td year (ncols (add_ref t)) (body (add_ref t)) kept = Inr df"
    by (auto elim: process_table_Inr)
  have len: "length (rows df) = length kept"
    using norm by (rule normalize_rows_length)
  have "length kept = length (map fst kept)" by simp
  also have "\<dots> = length (filter (\<lambda>r. \<not> is_sentinel r) (body (add_ref t)))"
    by (simp only: resolve_kept_rows [OF res])
  finally have a: "length (rows df) = length (filter (\<lambda>r. \<not> is_sentinel r) (body (add_ref t)))"
    using len by simp
  have b: "\<forall>e\<in>set (rows df). Year e = Some year" if none: "\<not> list_ex is_sentinel (body (add_ref t))"
  proof
    fix e assume "e \<in> set (rows df)"
    then obtain i where i: "i < length kept" and e: "e = rows df ! i"
      using len by (auto simp: in_set_conv_nth)
    from res resolve_no_sentinel [OF none, of year]
    have "kept = map (\<lambda>r. (r, Some year)) (body (add_ref t))" by simp
    with i have "snd (kept ! i) = Some year" by simp
    with normalize_rows_nth(1) [OF norm i] e show "Year e = Some year" by simp
  qed
  have c: "\<exists>y. sentinel_year m = Inr y
            \<and> (\<forall>j<length seg.
                  Year (rows df ! (length (filter (\<lambda>r. \<not> is_sentinel r) pre) + j)) = Some y)"
    if dec: "body (add_ref t) = pre @ m # seg @ post" and m: "is_sentinel m"
      and seg: "\<not> list_ex is_sentinel seg"
  proof -
    from resolve_segment [OF m seg, of year pre post] obtain y A B
      where y: "sentinel_year m = Inr y"
        and r: "resolve_sentinels year (pre @ m # seg @ post)
                  = Inr (A @ map (\<lambda>r. (r, Some y)) seg @ B)"
        and A: "map fst A = filter (\<lambda>r. \<not> is_sentinel r) pre"
      by blast
    from r res dec have kept: "kept = A @ map (\<lambda>r. (r, Some y)) seg @ B" by simp
    from A have lA: "length A = length (filter (\<lambda>r. \<not> is_sentinel r) pre)"
      by (metis length_map)
    have "Year (rows df ! (length (filter (\<lambda>r. \<not> is_sentinel r) pre) + j)) = Some y"
      if j: "j < length seg" for j
    proof -
      from j have i: "length A + j < length kept" by (simp add: kept)
      from j have "kept ! (length A + j) = (seg ! j, Some y)"
        by (simp add: kept nth_append)
      with normalize_rows_nth(1) [OF norm i] show ?thesis by (simp add: lA)
    qed
    with y show ?thesis by blast
  qed
  from a b c show ?thesis by blast
qed

lemma url_year_2024: "url_year url_2024 = Inr 2024"
  by code_simp

lemma url_year_1999: "url_year url_1999 = Inr 1999"
  by code_simp

theorem year_assignment_witness:
  "process_table verbatim_datetime url_2024 multi_year_table = Inr multi_year_frame
   \<and> url_year url_2024 = Inr 2024
   \<and> body (add_ref multi_year_table)
       = take 1 (body (add_ref multi_year_table)) @ body (add_ref multi_year_table) ! 1
           # [body (add_ref multi_year_table) ! 2] @ drop 3 (body (add_ref multi_year_table))
   \<and> is_sentinel (body (add_ref multi_year_table) ! 1)
   \<and> \<not> list_ex is_sentinel [body (add_ref multi_year_table) ! 2]
   \<and> sentinel_year (body (add_ref multi_year_table) ! 1) = Inr 2023
   \<and> Year (rows multi_year_frame ! 1) = Some 2023
   \<and> process_table verbatim_datetime url_1999 single_year_table = Inr single_year_frame
   \<and> url_year url_1999 = Inr 1999
   \<and> \<not> list_ex is_sentinel (body (add_ref single_year_table))
   \<and> map Year (rows single_year_frame) = [Some 1999]"
proof -
  let ?B = "body (add_ref multi_year_table)"
  have dec: "?B = take 1 ?B @ ?B ! 1 # [?B ! 2] @ drop 3 ?B"
    by code_simp
  have m: "is_sentinel (?B ! 1)"
    by code_simp
  have seg: "\<not> list_ex is_sentinel [?B ! 2]"
    by code_simp
  have y: "sentinel_year (?B ! 1) = Inr 2023"
    by code_simp
  have pos: "length (filter (\<lambda>r. \<not> is_sentinel r) (take 1 ?B)) = 1"
    by code_simp
  have none: "\<not> list_ex is_sentinel (body (add_ref single_year_table))"
    by code_simp
  from year_assignment [OF multi_year_page url_year_2024,
      of "take 1 ?B" "?B ! 1" "[?B ! 2]" "drop 3 ?B"] dec m seg y pos
  have "Year (rows multi_year_frame ! 1) = Some 2023"
    by auto
  moreover from year_assignment [OF single_year_page url_year_1999] none
  have "\<forall>e\<in>set (rows single_year_frame). Year e = Some 1999"
    by blast
  then have "map Year (rows single_year_frame) = [Some 1999]"
    by (simp add: single_year_frame_def)
  ultimately show ?thesis
    using multi_year_page single_year_page url_year_2024 url_year_1999 dec m seg y none
    by blast
qed

text \<open>
  Claim C2 says that every entry has a year. On a page with sentinel rows the \<^verbatim>\<open>Year\<close>
  column starts as \<^verbatim>\<open>pd.NA\<close> (the comment above that line says ``initially filled with
  default''), only sentinel rows are given a year, and the forward fill has nothing to
  put into the rows above the first sentinel row. The first row of the two-year page
  of the fixtures is such a row: it is in the frame \<^verbatim>\<open>scrape_data\<close> returns, with no
  year.
\<close>

theorem year_missing_before_first_sentinel:
  "scrape_data (serve site) verbatim_datetime (Some [url_2024]) no_world
     = (Inr (pd_concat [multi_year_frame]),
        no_world\<lparr>stdout := [''Scraping URL: '' @ url_2024], requests := [url_2024]\<rparr>)
   \<and> \<not> is_sentinel (body multi_year_table ! 0)
   \<and> is_sentinel (body multi_year_table ! 1)
   \<and> Single_Name (rows (pd_concat [multi_year_frame]) ! 0) = Some ''Early''
   \<and> Year (rows (pd_concat [multi_year_frame]) ! 0) = None"
proof -
  note site_run_2024
  moreover have "\<not> is_sentinel (body multi_year_table ! 0)" by code_simp
  moreover have "is_sentinel (body multi_year_table ! 1)" by code_simp
  moreover have "Single_Name (rows (pd_concat [multi_year_frame]) ! 0) = Some ''Early''"
    by (simp add: pd_concat_def multi_year_frame_def)
  moreover have "Year (rows (pd_concat [multi_year_frame]) ! 0) = None"
    by (simp add: pd_concat_def multi_year_frame_def)
  ultimately show ?thesis by blast
qed





section \<open>The loop over the pages\<close>




lemma scrape_loop_ok:
  "list_all2 (\<lambda>u df. scrape_page fetch td u = Inr df) urls dfs \<Longrightarrow>
   scrape_loop fetch td urls acc w
     = (Inr (acc @ dfs),
        w\<lparr>stdout := stdout w @ map (\<lambda>u. ''Scraping URL: '' @ u) urls,
          requests := requests w @ urls\<rparr>)"
proof (induction urls arbitrary: dfs acc w)
  case Nil
  then show ?case by simp
next
  case (Cons u us)
  then obtain d ds where dfs: "dfs = d # ds" and d: "scrape_page fetch td u = Inr d"
    and ds: "list_all2 (\<lambda>u df. scrape_page fetch td u = Inr df) us ds"
    by (auto simp: list_all2_Cons1)
  show ?case
    by (simp add: dfs d Cons.IH [OF ds])
qed

lemma scrape_loop_Inr:
  "scrape_loop fetch td urls acc w = (Inr res, w') \<Longrightarrow>
   \<exists>dfs. res = acc @ dfs \<and> list_all2 (\<lambda>u df. scrape_page fetch td u = Inr df) urls dfs"
proof (induction urls arbitrary: acc w)
  case Nil
  then show ?case by simp
next
  case (Cons u us)
  from Cons.prems obtain d where d: "scrape_page fetch td u = Inr d"
    by (auto simp: Let_def split: sum.splits)
  with Cons.prems have "scrape_loop fetch td us (acc @ [d])
      (w\<lparr>stdout := stdout w @ [''Scraping URL: '' @ u], requests := requests w @ [u]\<rparr>)
      = (Inr res, w')"
    by (simp add: Let_def)
  from Cons.IH [OF this] obtain ds where "res = (acc @ [d]) @ ds"
    and "list_all2 (\<lambda>u df. scrape_page fetch td u = Inr df) us ds"
    by blast
  with d show ?case
    by (intro exI [of _ "d # ds"]) simp
qed

lemma scrape_loop_fail:
  "u \<in> set urls \<Longrightarrow> scrape_page fetch td u = Inl e \<Longrightarrow>
   \<exists>e' w'. scrape_loop fetch td urls acc w = (Inl e', w')"
proof (induction urls arbitrary: acc w)
  case Nil
  then show ?case by simp
next
  case (Cons x xs)
  show ?case
  proof (cases "scrape_page fetch td x")
    case (Inl e0)
    then show ?thesis by (simp add: Let_def)
  next
    case (Inr d)
    with Cons.prems have "u \<in> set xs" by auto
    from Cons.IH [OF this Cons.prems(2)] show ?thesis
      by (simp add: Inr Let_def)
  qed
qed



lemma rows_pd_concat: "rows (pd_concat dfs) = concat (map rows dfs)"
  by (simp add: pd_concat_def)



text \<open>
  Claim C7: when every page of the URL list is scraped without an exception,
  \<^verbatim>\<open>scrape_data\<close> returns, the rows of its frame are the rows of the pages' frames one
  after the other in the order of the URL list, each page's rows in their own order
  and a repeated page's rows repeated, and the pages were requested in that order. If
  no page has a row the frame has none.
\<close>

theorem dataset_is_concatenation:
  assumes "list_all2 (\<lambda>u df. scrape_page fetch td u = Inr df) urls dfs"
  shows "\<exists>ds w'. scrape_data fetch td (Some urls) w = (Inr ds, w')
           \<and> rows ds = concat (map rows dfs)
           \<and> requests w' = requests w @ urls
           \<and> ((\<forall>df\<in>set dfs. rows df = []) \<longrightarrow> rows ds = [])"
proof -
  let ?w' = "w\<lparr>stdout := stdout w @ map (\<lambda>u. ''Scraping URL: '' @ u) urls,
               requests := requests w @ urls\<rparr>"
  let ?ds = "if dfs \<noteq> [] then pd_concat dfs else empty_frame"
  have "scrape_loop fetch td urls [] w = (Inr dfs, ?w')"
    using scrape_loop_ok [OF assms, of "[]" w] by simp
  then have run: "scrape_data fetch td (Some urls) w = (Inr ?ds, ?w')"
    by (simp add: scrape_data_def)
  have rows: "rows ?ds = concat (map rows dfs)"
    by (simp add: rows_pd_concat empty_frame_def)
  then have "(\<forall>df\<in>set dfs. rows df = []) \<longrightarrow> rows ?ds = []"
    by simp
  with run rows show ?thesis
    by (intro exI [of _ ?ds] exI [of _ ?w']) simp
qed

theorem dataset_is_concatenation_witness:
  "list_all2 (\<lambda>u df. scrape_page (serve site) verbatim_datetime u = Inr df)
     [url_2024, url_1999, url_2024] [multi_year_frame, single_year_frame, multi_year_frame]
   \<and> (\<exists>ds w'. scrape_data (serve site) verbatim_datetime
                 (Some [url_2024, url_1999, url_2024]) no_world = (Inr ds, w')
        \<and> rows ds = rows multi_year_frame @ rows single_year_frame @ rows multi_year_frame
        \<and> requests w' = [url_2024, url_1999, url_2024])"
proof -
  have pages: "list_all2 (\<lambda>u df. scrape_page (serve site) verbatim_datetime u = Inr df)
     [url_2024, url_1999, url_2024] [multi_year_frame, single_year_frame, multi_year_frame]"
    by (simp add: site_url_2024 site_url_1999)
  from dataset_is_concatenation [OF pages, of no_world] pages show ?thesis
    by (simp add: no_world_def) blast
qed

section \<open>Peak and Weeks in Top Ten\<close>

lemma extract_digits_None_iff: "extract_digits s = None \<longleftrightarrow> \<not> list_ex is_digit s"
proof -
  let ?r = "dropWhile (\<lambda>c. \<not> is_digit c) s"
  have "takeWhile is_digit ?r = [] \<longleftrightarrow> ?r = []"
  proof
    assume e: "takeWhile is_digit ?r = []"
    show "?r = []"
    proof (rule ccontr)
      assume ne: "?r \<noteq> []"
      then have "is_digit (hd ?r)" using hd_dropWhile [of "\<lambda>c. \<not> is_digit c" s] by simp
      with ne e show False by (cases ?r) auto
    qed
  next
    assume "?r = []"
    then show "takeWhile is_digit ?r = []" by (simp only: takeWhile.simps)
  qed
  then have "extract_digits s = None \<longleftrightarrow> ?r = []"
    by (simp add: extract_digits_def Let_def)
  also have "?r = [] \<longleftrightarrow> (\<forall>x\<in>set s. \<not> is_digit x)"
    by (simp only: dropWhile_eq_Nil_conv)
  also have "\<dots> \<longleftrightarrow> \<not> list_ex is_digit s"
    by (simp add: list_ex_iff)
  finally show ?thesis .
qed

lemma extract_digits_Some_run:
  assumes "extract_digits s = Some ds"
  shows "\<exists>a b. s = a @ ds @ b \<and> \<not> list_ex is_digit a \<and> ds \<noteq> [] \<and> list_all is_digit ds
           \<and> (b = [] \<or> \<not> is_digit (hd b))"
proof -
  let ?a = "takeWhile (\<lambda>c. \<not> is_digit c) s"
  let ?r = "dropWhile (\<lambda>c. \<not> is_digit c) s"
  let ?b = "dropWhile is_digit ?r"
  from assms have ds: "ds = takeWhile is_digit ?r" and ne: "ds \<noteq> []"
    by (auto simp: extract_digits_def Let_def split: if_splits)
  have "s = ?a @ ?r" by simp
  also have "?r = ds @ ?b" by (simp add: ds)
  finally have "s = ?a @ ds @ ?b" .
  moreover have "\<not> list_ex is_digit ?a"
    by (auto simp: list_ex_iff dest: set_takeWhileD)
  moreover have "list_all is_digit ds"
    by (auto simp: ds list_all_iff dest: set_takeWhileD)
  moreover have "?b = [] \<or> \<not> is_digit (hd ?b)"
    using hd_dropWhile [of is_digit ?r] by blast
  ultimately show ?thesis using ne by blast
qed

lemma astype_int_Inl: "astype_int x = Inl e \<Longrightarrow> e = ValueError \<or> e = OverflowError"
  by (auto simp: astype_int_def split: option.splits if_splits)

lemma astype_int_Inr: "astype_int x = Inr v \<Longrightarrow> \<exists>ds. x = Some ds \<and> v = int_of_digits ds"
  by (auto simp: astype_int_def split: option.splits if_splits)

lemma mapM_sum_Inl_ex:
  "x \<in> set xs \<Longrightarrow> f x = Inl e \<Longrightarrow> \<exists>e' x'. mapM_sum f xs = Inl e' \<and> x' \<in> set xs \<and> f x' = Inl e'"
proof (induction xs)
  case Nil
  then show ?case by simp
next
  case (Cons a xs)
  show ?case
  proof (cases "f a")
    case (Inl e0)
    then show ?thesis by auto
  next
    case (Inr y)
    with Cons.prems have "x \<in> set xs" by auto
    from Cons.IH [OF this Cons.prems(2)] obtain e' x'
      where "mapM_sum f xs = Inl e'" "x' \<in> set xs" "f x' = Inl e'" by blast
    with Inr show ?thesis by auto
  qed
qed

lemma mapM_sum_Inl_source:
  "mapM_sum f xs = Inl e \<Longrightarrow> \<exists>x\<in>set xs. f x = Inl e"
  by (induction xs) (auto split: sum.splits)

lemma normalize_rows_no_digits:
  assumes r: "r \<in> set (map fst kept)"
    and nd: "\<not> list_ex is_digit (astype_str (r ! 5)) \<or> \<not> list_ex is_digit (astype_str (r ! 3))"
    and sc: "str_column rs 4 \<and> str_column rs 0 \<and> str_column rs 1"
  shows "\<exists>e. normalize_rows td year 7 rs kept = Inl e \<and> (e = ValueError \<or> e = OverflowError)"
proof -
  from r obtain ry where ry: "ry \<in> set kept" "r = fst ry" by auto
  have w: "e = ValueError \<or> e = OverflowError"
    if "mapM_sum (\<lambda>ry. weeks_of (fst ry)) kept = Inl e" for e
    using mapM_sum_Inl_source [OF that] by (auto simp: weeks_of_def dest: astype_int_Inl)
  have p: "e = ValueError \<or> e = OverflowError"
    if "mapM_sum (\<lambda>ry. peak_of (fst ry)) kept = Inl e" for e
    using mapM_sum_Inl_source [OF that] by (auto simp: peak_of_def dest: astype_int_Inl)
  have width: "(7::nat) + 1 = length column_names"
    by (simp add: column_names_def)
  show ?thesis
  proof (cases "mapM_sum (\<lambda>ry. weeks_of (fst ry)) kept")
    case (Inl e)
    with w [OF Inl] width sc show ?thesis
      by (simp add: normalize_rows_def)
  next
    case wk: (Inr weeks)
    have "weeks_of (fst ry) \<noteq> Inl ValueError"
      using mapM_sum_Inl_ex [of ry kept "\<lambda>ry. weeks_of (fst ry)" ValueError] ry wk by auto
    then have "list_ex is_digit (astype_str (r ! 5))"
      using extract_digits_None_iff [of "astype_str (r ! 5)"] ry
      by (auto simp: weeks_of_def astype_int_def split: option.splits)
    with nd have "extract_digits (astype_str (r ! 3)) = None"
      by (simp add: extract_digits_None_iff)
    then have "peak_of (fst ry) = Inl ValueError"
      using ry by (simp add: peak_of_def astype_int_def)
    from mapM_sum_Inl_ex [OF ry(1), of "\<lambda>ry. peak_of (fst ry)", OF this]
    obtain e' where e': "mapM_sum (\<lambda>ry. peak_of (fst ry)) kept = Inl e'" by blast
    with p [OF e'] wk width sc show ?thesis
      by (simp add: normalize_rows_def)
  qed
qed

lemma ncols_add_ref: "ncols t = 6 \<or> ncols t = 7 \<Longrightarrow> ncols (add_ref t) = 7"
  by (auto simp: add_ref_def)

text \<open>
  Claim C5: on a page whose table has six or seven columns and whose date and name
  columns are of object dtype (so that the \<^verbatim>\<open>.str\<close> calls before the conversion do not
  raise), if some data row has no digit in its Weeks in Top Ten cell or in its Peak
  cell, the page raises the error of
  \<^verbatim>\<open>astype(int)\<close> (a \<^verbatim>\<open>ValueError\<close> for the missing number, or the \<^verbatim>\<open>OverflowError\<close> of
  a cell before it) and no default is put in; a run over URLs that include the page
  then ends in an exception, so that no frame is returned at all. If the page is
  processed, the Peak and the Weeks in Top Ten of every entry are the numbers written
  by the first maximal run of digits of the row's cells.
\<close>

theorem numeric_fields:
  assumes f: "fetch url = Inr (Inr t)" and yr: "url_year url = Inr year"
    and nc: "ncols t = 6 \<or> ncols t = 7"
  shows
    "(str_column (body (add_ref t)) 4 \<and> str_column (body (add_ref t)) 0
        \<and> str_column (body (add_ref t)) 1
        \<and> (\<exists>r\<in>set (filter (\<lambda>r. \<not> is_sentinel r) (body (add_ref t))).
          \<not> list_ex is_digit (astype_str (r ! 5)) \<or> \<not> list_ex is_digit (astype_str (r ! 3))) \<longrightarrow>
        (\<exists>e. scrape_page fetch td url = Inl e \<and> (e = ValueError \<or> e = OverflowError))
        \<and> (url \<in> set urls \<longrightarrow> (\<exists>e w'. scrape_data fetch td (Some urls) w = (Inl e, w'))))
     \<and> (scrape_page fetch td url = Inr df \<longrightarrow>
          length (rows df) = length (filter (\<lambda>r. \<not> is_sentinel r) (body (add_ref t)))
          \<and> (\<forall>i<length (rows df).
                (\<exists>a ds b. astype_str (filter (\<lambda>r. \<not> is_sentinel r) (body (add_ref t)) ! i ! 3) = a @ ds @ b
                    \<and> \<not> list_ex is_digit a \<and> ds \<noteq> [] \<and> list_all is_digit ds
                    \<and> (b = [] \<or> \<not> is_digit (hd b))
                    \<and> Peak (rows df ! i) = int_of_digits ds)
              \<and> (\<exists>a ds b. astype_str (filter (\<lambda>r. \<not> is_sentinel r) (body (add_ref t)) ! i ! 5) = a @ ds @ b
                    \<and> \<not> list_ex is_digit a \<and> ds \<noteq> [] \<and> list_all is_digit ds
                    \<and> (b = [] \<or> \<not> is_digit (hd b))
                    \<and> Weeks_in_Top_Ten (rows df ! i) = int_of_digits ds)))"
proof -
  let ?data = "filter (\<lambda>r. \<not> is_sentinel r) (body (add_ref t))"
  from year_column_total [of year "body (add_ref t)"] obtain kept
    where res: "resolve_sentinels year (body (add_ref t)) = Inr kept"
    by (auto simp: resolve_sentinels_def)
  have data: "map fst kept = ?data"
    using res by (rule resolve_kept_rows)
  have page: "scrape_page fetch td url = normalize_rows td year 7 (body (add_ref t)) kept"
    by (simp add: scrape_page_def process_table_def f yr res ncols_add_ref [OF nc])
  have bad: "(\<exists>e. scrape_page fetch td url = Inl e \<and> (e = ValueError \<or> e = OverflowError))
        \<and> (url \<in> set urls \<longrightarrow> (\<exists>e w'. scrape_data fetch td (Some urls) w = (Inl e, w')))"
    if sc: "str_column (body (add_ref t)) 4 \<and> str_column (body (add_ref t)) 0
        \<and> str_column (body (add_ref t)) 1"
      and ex: "\<exists>r\<in>set ?data.
          \<not> list_ex is_digit (astype_str (r ! 5)) \<or> \<not> list_ex is_digit (astype_str (r ! 3))"
  proof -
    from ex obtain r where r: "r \<in> set (map fst kept)"
      and nd: "\<not> list_ex is_digit (astype_str (r ! 5)) \<or> \<not> list_ex is_digit (astype_str (r ! 3))"
      unfolding data by blast
    from normalize_rows_no_digits [OF r nd sc, of td year] page obtain e
      where e: "scrape_page fetch td url = Inl e" "e = ValueError \<or> e = OverflowError"
      by auto
    have "\<exists>e w'. scrape_data fetch td (Some urls) w = (Inl e, w')" if "url \<in> set urls"
    proof -
      from scrape_loop_fail [OF that e(1), of "[]" w] obtain e' w'
        where "scrape_loop fetch td urls [] w = (Inl e', w')" by blast
      then show ?thesis by (simp add: scrape_data_def)
    qed
    with e show ?thesis by blast
  qed
  have good: "length (rows df) = length ?data
          \<and> (\<forall>i<length (rows df).
                (\<exists>a ds b. astype_str (?data ! i ! 3) = a @ ds @ b
                    \<and> \<not> list_ex is_digit a \<and> ds \<noteq> [] \<and> list_all is_digit ds
                    \<and> (b = [] \<or> \<not> is_digit (hd b))
                    \<and> Peak (rows df ! i) = int_of_digits ds)
              \<and> (\<exists>a ds b. astype_str (?data ! i ! 5) = a @ ds @ b
                    \<and> \<not> list_ex is_digit a \<and> ds \<noteq> [] \<and> list_all is_digit ds
                    \<and> (b = [] \<or> \<not> is_digit (hd b))
                    \<and> Weeks_in_Top_Ten (rows df ! i) = int_of_digits ds))"
    if ok: "scrape_page fetch td url = Inr df"
  proof -
    from ok page have norm: "normalize_rows td year 7 (body (add_ref t)) kept = Inr df" by simp
    have len: "length (rows df) = length kept"
      using norm by (rule normalize_rows_length)
    have len': "length (rows df) = length ?data"
      using len data by (metis length_map)
    have "(\<exists>a ds b. astype_str (?data ! i ! 3) = a @ ds @ b
                    \<and> \<not> list_ex is_digit a \<and> ds \<noteq> [] \<and> list_all is_digit ds
                    \<and> (b = [] \<or> \<not> is_digit (hd b))
                    \<and> Peak (rows df ! i) = int_of_digits ds)
              \<and> (\<exists>a ds b. astype_str (?data ! i ! 5) = a @ ds @ b
                    \<and> \<not> list_ex is_digit a \<and> ds \<noteq> [] \<and> list_all is_digit ds
                    \<and> (b = [] \<or> \<not> is_digit (hd b))
                    \<and> Weeks_in_Top_Ten (rows df ! i) = int_of_digits ds)"
      if i: "i < length (rows df)" for i
    proof -
      from i len have ik: "i < length kept" by simp
      have row: "fst (kept ! i) = ?data ! i"
        using ik data by (metis nth_map)
      from normalize_rows_nth(7) [OF norm ik] row
      obtain ps where ps: "extract_digits (astype_str (?data ! i ! 3)) = Some ps"
        "Peak (rows df ! i) = int_of_digits ps"
        by (auto simp: peak_of_def dest: astype_int_Inr)
      from normalize_rows_nth(8) [OF norm ik] row
      obtain ws where ws: "extract_digits (astype_str (?data ! i ! 5)) = Some ws"
        "Weeks_in_Top_Ten (rows df ! i) = int_of_digits ws"
        by (auto simp: weeks_of_def dest: astype_int_Inr)
      from extract_digits_Some_run [OF ps(1)] extract_digits_Some_run [OF ws(1)] ps(2) ws(2)
      show ?thesis by blast
    qed
    with len' show ?thesis by blast
  qed
  from bad good show ?thesis by blast
qed


theorem numeric_fields_witness:
  "serve bad_site url_1999 = Inr (Inr no_weeks_table)
   \<and> url_year url_1999 = Inr 1999
   \<and> ncols no_weeks_table = 6
   \<and> str_column (body (add_ref no_weeks_table)) 4
   \<and> str_column (body (add_ref no_weeks_table)) 0
   \<and> str_column (body (add_ref no_weeks_table)) 1
   \<and> \<not> list_ex is_digit
         (astype_str (filter (\<lambda>r. \<not> is_sentinel r) (body (add_ref no_weeks_table)) ! 0 ! 5))
   \<and> scrape_page (serve bad_site) verbatim_datetime url_1999 = Inl ValueError
   \<and> (\<exists>e w'. scrape_data (serve bad_site) verbatim_datetime (Some [url_1999]) no_world = (Inl e, w'))
   \<and> serve site url_1999 = Inr (Inr single_year_table)
   \<and> ncols single_year_table = 7
   \<and> scrape_page (serve site) verbatim_datetime url_1999 = Inr single_year_frame
   \<and> astype_str (filter (\<lambda>r. \<not> is_sentinel r) (body (add_ref single_year_table)) ! 0 ! 5)
       = ''5 weeks''
   \<and> (\<exists>a ds b. ''5 weeks'' = a @ ds @ b \<and> \<not> list_ex is_digit a \<and> ds \<noteq> []
         \<and> list_all is_digit ds
         \<and> Weeks_in_Top_Ten (rows single_year_frame ! 0) = int_of_digits ds)
   \<and> Weeks_in_Top_Ten (rows single_year_frame ! 0) = 5"
proof -
  let ?bad = "filter (\<lambda>r. \<not> is_sentinel r) (body (add_ref no_weeks_table))"
  let ?good = "filter (\<lambda>r. \<not> is_sentinel r) (body (add_ref single_year_table))"
  have f: "serve bad_site url_1999 = Inr (Inr no_weeks_table)" by code_simp
  have sc: "str_column (body (add_ref no_weeks_table)) 4"
    "str_column (body (add_ref no_weeks_table)) 0"
    "str_column (body (add_ref no_weeks_table)) 1"
    by code_simp+
  have nc: "ncols no_weeks_table = 6" by (simp add: no_weeks_table_def)
  have rows: "?bad = [?bad ! 0]" by code_simp
  have nd: "\<not> list_ex is_digit (astype_str (?bad ! 0 ! 5))" by code_simp
  have page: "scrape_page (serve bad_site) verbatim_datetime url_1999 = Inl ValueError"
    by code_simp
  have "?bad ! 0 \<in> set ?bad" using rows by (metis list.set_intros(1))
  with nd have ex: "\<exists>r\<in>set ?bad.
      \<not> list_ex is_digit (astype_str (r ! 5)) \<or> \<not> list_ex is_digit (astype_str (r ! 3))"
    by blast
  from numeric_fields [where fetch = "serve bad_site" and url = url_1999 and td = verbatim_datetime
      and urls = "[url_1999]" and w = no_world, OF f url_year_1999] nc ex sc
  have run: "\<exists>e w'. scrape_data (serve bad_site) verbatim_datetime (Some [url_1999]) no_world
      = (Inl e, w')"
    by simp
  have g: "serve site url_1999 = Inr (Inr single_year_table)" by code_simp
  have nc': "ncols single_year_table = 7" by (simp add: single_year_table_def)
  have cell: "astype_str (?good ! 0 ! 5) = ''5 weeks''" by code_simp
  have len: "0 < length (rows single_year_frame)" by (simp add: single_year_frame_def)
  have val: "Weeks_in_Top_Ten (rows single_year_frame ! 0) = 5"
    by (simp add: single_year_frame_def)
  from numeric_fields [where fetch = "serve site" and url = url_1999 and td = verbatim_datetime
      and df = single_year_frame, OF g url_year_1999] nc' site_url_1999 len
  have "\<exists>a ds b. astype_str (?good ! 0 ! 5) = a @ ds @ b \<and> \<not> list_ex is_digit a \<and> ds \<noteq> []
         \<and> list_all is_digit ds \<and> (b = [] \<or> \<not> is_digit (hd b))
         \<and> Weeks_in_Top_Ten (rows single_year_frame ! 0) = int_of_digits ds"
    by blast
  then have run': "\<exists>a ds b. ''5 weeks'' = a @ ds @ b \<and> \<not> list_ex is_digit a \<and> ds \<noteq> []
         \<and> list_all is_digit ds
         \<and> Weeks_in_Top_Ten (rows single_year_frame ! 0) = int_of_digits ds"
    unfolding cell by blast
  from f url_year_1999 nc sc nd page run g nc' site_url_1999 cell run' val show ?thesis
    by blast
qed

section \<open>Sentinel rows do not reach the frame\<close>

lemma sentinel_here_append: "sentinel_here t \<Longrightarrow> sentinel_here (t @ q)"
proof -
  assume a: "sentinel_here t"
  then have l: "13 \<le> length t"
    by (auto simp: sentinel_here_def dest: arg_cong [where f = length])
  with a show ?thesis
    by (simp add: sentinel_here_def four_digits_append)
qed

lemma contains_sentinel_append_right: "contains_sentinel s \<Longrightarrow> contains_sentinel (s @ q)"
proof (induction s)
  case Nil
  then show ?case by simp
next
  case (Cons c cs)
  then show ?case
    using sentinel_here_append [of "c # cs" q] by auto
qed

lemma contains_sentinel_append_left: "contains_sentinel s \<Longrightarrow> contains_sentinel (p @ s)"
  by (induction p) auto

lemma split_on_first:
  "split_on c s = a # others \<Longrightarrow> others \<noteq> [] \<Longrightarrow> \<exists>r. s = a @ c # r \<and> split_on c r = others"
proof (induction s arbitrary: a)
  case Nil
  then show ?case by simp
next
  case (Cons x xs)
  show ?case
  proof (cases "x = c")
    case True
    with Cons.prems(1) have "a = []" "split_on c xs = others" by simp_all
    with True show ?thesis by simp
  next
    case False
    obtain p ps where pps: "split_on c xs = p # ps"
      using split_on_nonempty [of c xs] by (cases "split_on c xs") auto
    with False Cons.prems(1) have a: "a = x # p" and m: "ps = others" by simp_all
    from Cons.IH [of p] pps m Cons.prems(2)
    obtain r where "xs = p @ c # r" "split_on c r = others" by auto
    with a show ?thesis by simp
  qed
qed

lemma split_on_second:
  assumes "split_on c s = a # b # rest"
  shows "\<exists>q. s = a @ c # b @ q"
proof -
  from split_on_first [OF assms] obtain r
    where r: "s = a @ c # r" "split_on c r = b # rest" by auto
  have "b = takeWhile (\<lambda>x. x \<noteq> c) r"
    using split_on_hd [of c r] r(2) by simp
  then have "r = b @ dropWhile (\<lambda>x. x \<noteq> c) r" by simp
  with r(1) show ?thesis by metis
qed

lemma single_name_part:
  assumes "single_name c = Some n"
  shows "\<exists>s p q. c = Text s \<and> s = p @ n @ q"
proof (cases c)
  case (Text s)
  with assms obtain a rest where "split_on dquote s = a # n # rest"
    by (auto split: list.splits)
  from split_on_second [OF this] obtain q where "s = a @ dquote # n @ q" ..
  then have "s = (a @ [dquote]) @ n @ q" by simp
  with Text show ?thesis by blast
qed (use assms in auto)

lemma add_ref_row_length: "r \<in> set (body (add_ref t)) \<Longrightarrow> length r = ncols (add_ref t)"
  by (auto simp: add_ref_def pad_def split: if_splits)

lemma not_sentinel_cell:
  "\<not> is_sentinel r \<Longrightarrow> k < length r \<Longrightarrow> \<not> contains_sentinel (astype_str (r ! k))"
  by (auto simp: is_sentinel_def row_strs_def list_ex_iff)

lemma not_sentinel_name:
  assumes r: "\<not> is_sentinel r" and k: "k < length r" and n: "single_name (r ! k) = Some n"
  shows "\<not> contains_sentinel n"
proof
  assume c: "contains_sentinel n"
  from single_name_part [OF n] obtain s p q where s: "r ! k = Text s" "s = p @ n @ q" by blast
  from c have "contains_sentinel (p @ n @ q)"
    by (intro contains_sentinel_append_left contains_sentinel_append_right)
  with s have "contains_sentinel (astype_str (r ! k))" by simp
  with not_sentinel_cell [OF r k] show False ..
qed

lemma page_entries:
  assumes ok: "process_table td url t = Inr df"
  shows "map (\<lambda>e. (Single_Name e, Artists e, Ref e)) (rows df)
       = map (\<lambda>r. (single_name (r ! 1), r ! 2, r ! 6))
           (filter (\<lambda>r. \<not> is_sentinel r) (body (add_ref t)))"
    and "\<forall>e\<in>set (rows df). \<not> contains_sentinel (astype_str (Artists e))
           \<and> \<not> contains_sentinel (astype_str (Ref e))
           \<and> (\<forall>n. Single_Name e = Some n \<longrightarrow> \<not> contains_sentinel n)"
proof -
  let ?data = "filter (\<lambda>r. \<not> is_sentinel r) (body (add_ref t))"
  from ok obtain year kept
    where res: "resolve_sentinels year (body (add_ref t)) = Inr kept"
      and norm: "normalize_rows td year (ncols (add_ref t)) (body (add_ref t)) kept = Inr df"
    by (auto elim: process_table_Inr)
  have data: "map fst kept = ?data"
    using res by (rule resolve_kept_rows)
  have len: "length (rows df) = length kept"
    using norm by (rule normalize_rows_length)
  have len': "length (rows df) = length ?data"
    using len data by (metis length_map)
  have width: "ncols (add_ref t) = 7"
    using norm by (rule normalize_rows_width)
  have row: "fst (kept ! i) = ?data ! i" if "i < length kept" for i
    using that data by (metis nth_map)
  have fields: "Single_Name (rows df ! i) = single_name (?data ! i ! 1)
      \<and> Artists (rows df ! i) = ?data ! i ! 2 \<and> Ref (rows df ! i) = ?data ! i ! 6"
    if "i < length kept" for i
    using normalize_rows_nth(2,3,4) [OF norm that] row [OF that] by simp
  show "map (\<lambda>e. (Single_Name e, Artists e, Ref e)) (rows df)
       = map (\<lambda>r. (single_name (r ! 1), r ! 2, r ! 6)) ?data"
    using len len' fields by (intro nth_equalityI) auto
  show "\<forall>e\<in>set (rows df). \<not> contains_sentinel (astype_str (Artists e))
           \<and> \<not> contains_sentinel (astype_str (Ref e))
           \<and> (\<forall>n. Single_Name e = Some n \<longrightarrow> \<not> contains_sentinel n)"
  proof
    fix e assume "e \<in> set (rows df)"
    then obtain i where i: "i < length kept" and e: "e = rows df ! i"
      using len by (auto simp: in_set_conv_nth)
    from i len len' have "i < length ?data" by simp
    then have mem: "?data ! i \<in> set ?data" by (rule nth_mem)
    then have ns: "\<not> is_sentinel (?data ! i)" and inb: "?data ! i \<in> set (body (add_ref t))"
      by simp_all
    have l: "length (?data ! i) = 7"
      using add_ref_row_length [OF inb] width by simp
    have c2: "\<not> contains_sentinel (astype_str (?data ! i ! 2))"
      using not_sentinel_cell [OF ns, of 2] l by simp
    have c6: "\<not> contains_sentinel (astype_str (?data ! i ! 6))"
      using not_sentinel_cell [OF ns, of 6] l by simp
    have c1: "\<not> contains_sentinel n" if "single_name (?data ! i ! 1) = Some n" for n
      using not_sentinel_name [OF ns _ that] l by simp
    from fields [OF i] e c1 c2 c6
    show "\<not> contains_sentinel (astype_str (Artists e))
           \<and> \<not> contains_sentinel (astype_str (Ref e))
           \<and> (\<forall>n. Single_Name e = Some n \<longrightarrow> \<not> contains_sentinel n)"
      by simp
  qed
qed

lemma pages_entries:
  assumes "list_all2 (\<lambda>u df. scrape_page fetch td u = Inr df) urls dfs"
  shows "\<exists>ts. list_all2 (\<lambda>u t. fetch u = Inr (Inr t)) urls ts
           \<and> map (\<lambda>e. (Single_Name e, Artists e, Ref e)) (concat (map rows dfs))
               = concat (map (\<lambda>t. map (\<lambda>r. (single_name (r ! 1), r ! 2, r ! 6))
                                     (filter (\<lambda>r. \<not> is_sentinel r) (body (add_ref t)))) ts)
           \<and> (\<forall>e\<in>set (concat (map rows dfs)).
                 \<not> contains_sentinel (astype_str (Artists e))
                 \<and> \<not> contains_sentinel (astype_str (Ref e))
                 \<and> (\<forall>n. Single_Name e = Some n \<longrightarrow> \<not> contains_sentinel n))"
  using assms
proof (induction rule: list_all2_induct)
  case Nil
  then show ?case by simp
next
  case (Cons u us df dfs)
  from Cons.hyps(1) obtain t where t: "fetch u = Inr (Inr t)" "process_table td u t = Inr df"
    by (auto simp: scrape_page_def split: sum.splits)
  from Cons.IH obtain ts where ts: "list_all2 (\<lambda>u t. fetch u = Inr (Inr t)) us ts"
    "map (\<lambda>e. (Single_Name e, Artists e, Ref e)) (concat (map rows dfs))
       = concat (map (\<lambda>t. map (\<lambda>r. (single_name (r ! 1), r ! 2, r ! 6))
                             (filter (\<lambda>r. \<not> is_sentinel r) (body (add_ref t)))) ts)"
    "\<forall>e\<in>set (concat (map rows dfs)).
       \<not> contains_sentinel (astype_str (Artists e))
       \<and> \<not> contains_sentinel (astype_str (Ref e))
       \<and> (\<forall>n. Single_Name e = Some n \<longrightarrow> \<not> contains_sentinel n)"
    by blast
  show ?case
    using t(1) ts page_entries [OF t(2)]
    by (intro exI [of _ "t # ts"]) auto
qed

text \<open>
  Claim C6: the entries of a frame that \<^verbatim>\<open>scrape_data\<close> returns are, page after page
  and in order, the rows of the pages' tables that are not sentinel rows: the name,
  artist and reference of the entries are those of these rows. No text field of an
  entry matches \<^verbatim>\<open>Singles from \d{4}\<close>.
\<close>

theorem no_sentinel_in_dataset:
  assumes "scrape_data fetch td (Some urls) w = (Inr ds, w')"
  shows "\<exists>ts. list_all2 (\<lambda>u t. fetch u = Inr (Inr t)) urls ts
           \<and> map (\<lambda>e. (Single_Name e, Artists e, Ref e)) (rows ds)
               = concat (map (\<lambda>t. map (\<lambda>r. (single_name (r ! 1), r ! 2, r ! 6))
                                     (filter (\<lambda>r. \<not> is_sentinel r) (body (add_ref t)))) ts)
           \<and> (\<forall>e\<in>set (rows ds).
                 \<not> contains_sentinel (astype_str (Artists e))
                 \<and> \<not> contains_sentinel (astype_str (Ref e))
                 \<and> (\<forall>n. Single_Name e = Some n \<longrightarrow> \<not> contains_sentinel n))"
proof -
  from assms obtain all_data
    where loop: "scrape_loop fetch td urls [] w = (Inr all_data, w')"
      and ds: "ds = (if all_data \<noteq> [] then pd_concat all_data else empty_frame)"
    by (auto simp: scrape_data_def split: prod.splits sum.splits)
  from scrape_loop_Inr [OF loop]
  have pages: "list_all2 (\<lambda>u df. scrape_page fetch td u = Inr df) urls all_data"
    by simp
  have "rows ds = concat (map rows all_data)"
    by (simp add: ds rows_pd_concat empty_frame_def)
  with pages_entries [OF pages] show ?thesis by simp
qed


theorem no_sentinel_in_dataset_witness:
  "scrape_data (serve site) verbatim_datetime (Some [url_2024]) no_world
     = (Inr (pd_concat [multi_year_frame]),
        no_world\<lparr>stdout := [''Scraping URL: '' @ url_2024], requests := [url_2024]\<rparr>)
   \<and> length (body multi_year_table) = 5
   \<and> length (filter is_sentinel (body multi_year_table)) = 2
   \<and> length (rows (pd_concat [multi_year_frame])) = 3
   \<and> \<not> contains_sentinel (astype_str (Artists (rows (pd_concat [multi_year_frame]) ! 1)))"
proof -
  have a: "length (body multi_year_table) = 5" by (simp add: multi_year_table_def)
  have b: "length (filter is_sentinel (body multi_year_table)) = 2" by code_simp
  have c: "length (rows (pd_concat [multi_year_frame])) = 3"
    by (simp add: pd_concat_def multi_year_frame_def)
  then have "rows (pd_concat [multi_year_frame]) ! 1 \<in> set (rows (pd_concat [multi_year_frame]))"
    by (intro nth_mem) simp
  with no_sentinel_in_dataset [OF site_run_2024]
  have "\<not> contains_sentinel (astype_str (Artists (rows (pd_concat [multi_year_frame]) ! 1)))"
    by blast
  with site_run_2024 a b c show ?thesis by blast
qed

section \<open>Saving\<close>

text \<open>
  Claim C9: for an empty frame (no column or no row) \<^verbatim>\<open>save_to_csv\<close> prints
  \<^verbatim>\<open>No data to save.\<close> and does nothing else: the files and the directories are
  as before.
\<close>

theorem save_to_csv_empty:
  assumes "df_empty df"
  shows "save_to_csv to_csv stamp repo_root df filename w
           = w\<lparr>stdout := stdout w @ [''No data to save.'']\<rparr>"
  using assms by (simp add: save_to_csv_def)

theorem save_to_csv_empty_witness:
  "df_empty \<lparr>columns = column_names, rows = ([] :: string entry list)\<rparr>
   \<and> save_to_csv (\<lambda>df. ''header'') ''2026_11'' ''/repo''
         \<lparr>columns = column_names, rows = ([] :: string entry list)\<rparr> None no_world
       = no_world\<lparr>stdout := [''No data to save.'']\<rparr>
   \<and> files (save_to_csv (\<lambda>df. ''header'') ''2026_11'' ''/repo''
         \<lparr>columns = column_names, rows = ([] :: string entry list)\<rparr> None no_world)
       = Map.empty"
proof -
  have e: "df_empty \<lparr>columns = column_names, rows = ([] :: string entry list)\<rparr>"
    by (simp add: df_empty_def)
  from save_to_csv_empty [OF e, of "\<lambda>df. ''header''" "''2026_11''" "''/repo''" None no_world] e
  show ?thesis
    by (simp add: no_world_def)
qed

end
